theory Spec2Isabelle
  imports Complex_Main
begin

section \<open>Python strings\<close>

text \<open>
  A Python \<open>str\<close> is a sequence of Unicode code points. The schedule texts of the data
  set use the en dash U+2013, which is one code point, so a string is modelled as a list
  of code points (natural numbers) and not as a list of bytes. \<open>str\<close> embeds an ASCII
  literal.

  The whitespace set is the one of \<open>str.strip\<close>, \<open>str.isspace\<close> and of \<open>\s\<close> in a
  \<open>str\<close> pattern of \<open>re\<close>. The case mappings and the decimal digits are the ASCII ones:
  the cased letters and decimal digits that Unicode has beyond ASCII are outside this
  model (they are left unchanged by \<open>lower\<close>/\<open>upper\<close> and are not digits here).
  In Python \<open>\d\<close> and \<open>int\<close> accept every Unicode decimal digit, a set that depends on
  the Unicode version of the interpreter; on a text that writes a time with such digits
  the code finds a time where \<open>is_digit\<close> finds none. The statements below on given
  time tokens are about ASCII digits.
\<close>

type_synonym pchar = nat
type_synonym pstr = "pchar list"

definition str :: "string \<Rightarrow> pstr" where
  "str s = map of_char s"

definition en_dash :: pchar where
  "en_dash = 8211"

definition hyphen :: pchar where
  "hyphen = 45"

definition is_space :: "pchar \<Rightarrow> bool" where
  "is_space c \<longleftrightarrow>
     (9 \<le> c \<and> c \<le> 13) \<or> (28 \<le> c \<and> c \<le> 32) \<or> c = 133 \<or> c = 160 \<or> c = 5760 \<or>
     (8192 \<le> c \<and> c \<le> 8202) \<or> c = 8232 \<or> c = 8233 \<or> c = 8239 \<or> c = 8287 \<or> c = 12288"

definition is_digit :: "pchar \<Rightarrow> bool" where
  "is_digit c \<longleftrightarrow> 48 \<le> c \<and> c \<le> 57"

definition lower_cp :: "pchar \<Rightarrow> pchar" where
  "lower_cp c = (if 65 \<le> c \<and> c \<le> 90 then c + 32 else c)"

definition upper_cp :: "pchar \<Rightarrow> pchar" where
  "upper_cp c = (if 97 \<le> c \<and> c \<le> 122 then c - 32 else c)"

definition lower :: "pstr \<Rightarrow> pstr" where
  "lower s = map lower_cp s"

definition upper :: "pstr \<Rightarrow> pstr" where
  "upper s = map upper_cp s"

text \<open>\<open>s.strip()\<close>: whitespace removed at both ends.\<close>

definition lstrip :: "pstr \<Rightarrow> pstr" where
  "lstrip s = dropWhile is_space s"

definition rstrip :: "pstr \<Rightarrow> pstr" where
  "rstrip s = rev (dropWhile is_space (rev s))"

definition strip :: "pstr \<Rightarrow> pstr" where
  "strip s = rstrip (lstrip s)"

text \<open>\<open>s.startswith(p)\<close> and \<open>p in s\<close>.\<close>

fun starts_with :: "pstr \<Rightarrow> pstr \<Rightarrow> bool" where
  "starts_with [] s = True"
| "starts_with (p # ps) [] = False"
| "starts_with (p # ps) (c # cs) = (p = c \<and> starts_with ps cs)"

fun contains :: "pstr \<Rightarrow> pstr \<Rightarrow> bool" where
  "contains p [] = starts_with p []"
| "contains p (c # cs) = (starts_with p (c # cs) \<or> contains p cs)"

text \<open>\<open>s.split(sep)\<close> for a separator of one character: never an empty list.\<close>

fun split_on :: "pchar \<Rightarrow> pstr \<Rightarrow> pstr list" where
  "split_on sep [] = [[]]"
| "split_on sep (c # cs) =
     (if c = sep then [] # split_on sep cs
      else (case split_on sep cs of
              [] \<Rightarrow> [[c]]
            | p # ps \<Rightarrow> (c # p) # ps))"

text \<open>\<open>int(ds)\<close> on a string of decimal digits.\<close>

definition py_int :: "pstr \<Rightarrow> nat" where
  "py_int ds = foldl (\<lambda>a d. 10 * a + (d - 48)) 0 ds"

section \<open>Regular expressions\<close>

text \<open>
  The fragment of \<open>re\<close> that the two patterns of the source use: character classes
  \<open>\d\<close>, \<open>\s\<close> and \<open>[...]\<close>, literals, sequence, alternation, the greedy \<open>?\<close>, the greedy
  bounded repetition \<open>{m,n}\<close> and the greedy \<open>*\<close> of a character class, and numbered
  groups. \<open>rx_match r s\<close> lists every way \<open>r\<close> matches a prefix of \<open>s\<close>, in the order in
  which the backtracking matcher of \<open>re\<close> tries them: each result holds the groups
  captured and the text that remains. \<open>re_search\<close> is \<open>re.search\<close>: the first result at
  the leftmost position that has one.
\<close>

datatype cls = Digit | Space | OneOf "pchar list"

fun cls_ok :: "cls \<Rightarrow> pchar \<Rightarrow> bool" where
  "cls_ok Digit c = is_digit c"
| "cls_ok Space c = is_space c"
| "cls_ok (OneOf cs) c = (c \<in> set cs)"

datatype rx =
    Cl cls
  | Lit pstr
  | Seq rx rx
  | Alt rx rx
  | Opt rx
  | Rep nat nat cls
  | Star cls
  | Grp nat rx

type_synonym caps = "(nat \<times> pstr) list"

text \<open>
  \<open>m.group(n)\<close>. Every group of the patterns below takes part in every match (lemmas
  \<open>time12_groups\<close>, \<open>time24_groups\<close> and \<open>time_pattern_groups\<close>), so the \<open>None\<close> that
  Python gives for a group outside the match never arises.
\<close>

definition group :: "caps \<Rightarrow> nat \<Rightarrow> pstr" where
  "group g n = (case map_of g n of None \<Rightarrow> [] | Some t \<Rightarrow> t)"

fun rep_match :: "cls \<Rightarrow> nat \<Rightarrow> nat \<Rightarrow> pstr \<Rightarrow> pstr list" where
  "rep_match k lo 0 s = (if lo = 0 then [s] else [])"
| "rep_match k lo (Suc hi) [] = (if lo = 0 then [[]] else [])"
| "rep_match k lo (Suc hi) (c # cs) =
     (if cls_ok k c then rep_match k (lo - 1) hi cs else []) @
     (if lo = 0 then [c # cs] else [])"

fun star_match :: "cls \<Rightarrow> pstr \<Rightarrow> pstr list" where
  "star_match k [] = [[]]"
| "star_match k (c # cs) = (if cls_ok k c then star_match k cs else []) @ [c # cs]"

fun rx_match :: "rx \<Rightarrow> pstr \<Rightarrow> (caps \<times> pstr) list" where
  "rx_match (Cl k) s =
     (case s of [] \<Rightarrow> [] | c # cs \<Rightarrow> if cls_ok k c then [([], cs)] else [])"
| "rx_match (Lit l) s = (if starts_with l s then [([], drop (length l) s)] else [])"
| "rx_match (Seq a b) s =
     concat (map (\<lambda>(g1, s1). map (\<lambda>(g2, s2). (g1 @ g2, s2)) (rx_match b s1))
                 (rx_match a s))"
| "rx_match (Alt a b) s = rx_match a s @ rx_match b s"
| "rx_match (Opt a) s = rx_match a s @ [([], s)]"
| "rx_match (Rep lo hi k) s = map (\<lambda>r. ([], r)) (rep_match k lo hi s)"
| "rx_match (Star k) s = map (\<lambda>r. ([], r)) (star_match k s)"
| "rx_match (Grp n a) s =
     map (\<lambda>(g, r). ((n, take (length s - length r) s) # g, r)) (rx_match a s)"

fun re_search :: "rx \<Rightarrow> pstr \<Rightarrow> caps option" where
  "re_search r [] = (case rx_match r [] of [] \<Rightarrow> None | (g, _) # _ \<Rightarrow> Some g)"
| "re_search r (c # cs) =
     (case rx_match r (c # cs) of [] \<Rightarrow> re_search r cs | (g, _) # _ \<Rightarrow> Some g)"

section \<open>Times of day\<close>

text \<open>
  \<open>datetime.time(hour, minute)\<close> raises \<open>ValueError\<close> outside 0..23 and 0..59. Times are
  ordered by hour, then minute (seconds and microseconds are always 0 here).
\<close>

datatype error = ValueError | TypeError | AttributeError

record time =
  hour :: nat
  minute :: nat

definition mk_time :: "nat \<Rightarrow> nat \<Rightarrow> error + time" where
  "mk_time h m =
     (if h \<le> 23 \<and> m \<le> 59 then Inr \<lparr>hour = h, minute = m\<rparr> else Inl ValueError)"

definition time_le :: "time \<Rightarrow> time \<Rightarrow> bool" where
  "time_le a b \<longleftrightarrow> hour a < hour b \<or> (hour a = hour b \<and> minute a \<le> minute b)"

section \<open>PlaceHoursFilter\<close>

subsection \<open>parse\_time\<close>

text \<open>\<open>(\d{1,2}):(\d{2})\s*(AM|PM)\<close> and \<open>(\d{1,2}):(\d{2})\<close>.\<close>

definition time12_rx :: rx where
  "time12_rx =
     Seq (Grp 1 (Rep 1 2 Digit))
      (Seq (Lit (str '':''))
       (Seq (Grp 2 (Rep 2 2 Digit))
        (Seq (Star Space) (Grp 3 (Alt (Lit (str ''AM'')) (Lit (str ''PM'')))))))"

definition time24_rx :: rx where
  "time24_rx =
     Seq (Grp 1 (Rep 1 2 Digit)) (Seq (Lit (str '':'')) (Grp 2 (Rep 2 2 Digit)))"

definition parse_time :: "pstr \<Rightarrow> error + time" where
  "parse_time time_str =
     (let s = upper (strip time_str) in
      if contains (str ''AM'') s \<or> contains (str ''PM'') s then
        (case re_search time12_rx s of
           None \<Rightarrow> Inl ValueError
         | Some g \<Rightarrow>
             (let hour = py_int (group g 1); minute = py_int (group g 2);
                  period = group g 3 in
              if period = str ''AM'' \<and> hour = 12 then mk_time 0 minute
              else if period = str ''PM'' \<and> hour \<noteq> 12 then mk_time (hour + 12) minute
              else mk_time hour minute))
      else
        (case re_search time24_rx s of
           None \<Rightarrow> Inl ValueError
         | Some g \<Rightarrow> mk_time (py_int (group g 1)) (py_int (group g 2))))"

subsection \<open>parse\_day\<close>

definition day_mapping :: "(pstr \<times> pstr) list" where
  "day_mapping =
     [(str ''monday'', str ''Monday''),
      (str ''tuesday'', str ''Tuesday''),
      (str ''wednesday'', str ''Wednesday''),
      (str ''thursday'', str ''Thursday''),
      (str ''friday'', str ''Friday''),
      (str ''saturday'', str ''Saturday''),
      (str ''sunday'', str ''Sunday''),
      (str ''mon'', str ''Monday''),
      (str ''tue'', str ''Tuesday''),
      (str ''wed'', str ''Wednesday''),
      (str ''thu'', str ''Thursday''),
      (str ''fri'', str ''Friday''),
      (str ''sat'', str ''Saturday''),
      (str ''sun'', str ''Sunday'')]"

definition parse_day :: "pstr \<Rightarrow> error + pstr" where
  "parse_day day_str =
     (let day_lower = lower (strip day_str) in
      case map_of day_mapping day_lower of
        Some d \<Rightarrow> Inr d
      | None \<Rightarrow> Inl ValueError)"

subsection \<open>parse\_hours\_string\<close>

text \<open>
  \<open>(\d{1,2}:\d{2}\s*(?:AM|PM)?)\s*[\<dots>-]\s*(\d{1,2}:\d{2}\s*(?:AM|PM)?)\<close>, where the
  character class holds the en dash and the hyphen.
\<close>

definition time_token_rx :: rx where
  "time_token_rx =
     Seq (Rep 1 2 Digit)
      (Seq (Lit (str '':''))
       (Seq (Rep 2 2 Digit)
        (Seq (Star Space) (Opt (Alt (Lit (str ''AM'')) (Lit (str ''PM'')))))))"

definition time_pattern :: rx where
  "time_pattern =
     Seq (Grp 1 time_token_rx)
      (Seq (Star Space)
       (Seq (Cl (OneOf [en_dash, hyphen]))
        (Seq (Star Space) (Grp 2 time_token_rx))))"

text \<open>
  The loop over the comma-separated ranges. A \<open>ValueError\<close> of \<open>parse_time\<close> is caught and
  the range is skipped; the warning printed then is not modelled.
\<close>

fun parse_ranges :: "pstr list \<Rightarrow> (time \<times> time) list" where
  "parse_ranges [] = []"
| "parse_ranges (range_str # ranges) =
     (case re_search time_pattern range_str of
        None \<Rightarrow> parse_ranges ranges
      | Some g \<Rightarrow>
          (case parse_time (group g 1) of
             Inl e \<Rightarrow> parse_ranges ranges
           | Inr start_time \<Rightarrow>
               (case parse_time (group g 2) of
                  Inl e \<Rightarrow> parse_ranges ranges
                | Inr end_time \<Rightarrow> (start_time, end_time) # parse_ranges ranges)))"

definition comma :: pchar where
  "comma = 44"

definition parse_hours_string :: "pstr \<Rightarrow> (time \<times> time) list" where
  "parse_hours_string hours_str =
     (let s = strip hours_str in
      if contains (str ''closed'') (lower s) then []
      else if contains (str ''24 hours'') (lower s) \<or>
              contains (str ''open 24 hours'') (lower s)
      then [(\<lparr>hour = 0, minute = 0\<rparr>, \<lparr>hour = 23, minute = 59\<rparr>)]
      else parse_ranges (map strip (split_on comma s)))"

subsection \<open>Places\<close>

text \<open>
  A place is a \<open>dict\<close> read by \<open>json.load\<close>: keys are strings and values are JSON values.
  A dictionary keeps its keys in insertion order, so it is an association list; a JSON
  number is kept as a real (\<open>NaN\<close> and the infinities are left out).
\<close>

datatype jval =
    JNull
  | JBool bool
  | JNum real
  | JStr pstr
  | JArr "jval list"
  | JObj "(pstr \<times> jval) list"

type_synonym place = "(pstr \<times> jval) list"

text \<open>Truth value of a Python object, as \<open>not x\<close> tests it.\<close>

fun truthy :: "jval \<Rightarrow> bool" where
  "truthy JNull = False"
| "truthy (JBool b) = b"
| "truthy (JNum x) = (x \<noteq> 0)"
| "truthy (JStr s) = (s \<noteq> [])"
| "truthy (JArr xs) = (xs \<noteq> [])"
| "truthy (JObj kvs) = (kvs \<noteq> [])"

text \<open>
  What a \<open>for\<close> loop iterates over: the items of a list, the characters of a string,
  the keys of a dictionary; anything else raises \<open>TypeError\<close>.
\<close>

fun py_iter :: "jval \<Rightarrow> error + jval list" where
  "py_iter (JArr xs) = Inr xs"
| "py_iter (JStr s) = Inr (map (\<lambda>c. JStr [c]) s)"
| "py_iter (JObj kvs) = Inr (map (\<lambda>kv. JStr (fst kv)) kvs)"
| "py_iter _ = Inl TypeError"

subsection \<open>is\_place\_open\<close>

text \<open>
  The loop that finds the entry of the requested day: the first entry that starts with
  \<open>query_day + ":"\<close>. Only a string has \<open>startswith\<close>.
\<close>

fun find_day_hours :: "jval list \<Rightarrow> pstr \<Rightarrow> error + pstr option" where
  "find_day_hours [] query_day = Inr None"
| "find_day_hours (JStr hours_entry # es) query_day =
     (if starts_with (query_day @ str '':'') hours_entry then Inr (Some hours_entry)
      else find_day_hours es query_day)"
| "find_day_hours (_ # es) query_day = Inl AttributeError"

fun in_ranges :: "(time \<times> time) list \<Rightarrow> time \<Rightarrow> bool" where
  "in_ranges [] query_time = False"
| "in_ranges ((start_time, end_time) # rs) query_time =
     (if time_le start_time query_time \<and> time_le query_time end_time then True
      else in_ranges rs query_time)"

definition is_place_open :: "place \<Rightarrow> time \<Rightarrow> pstr \<Rightarrow> error + bool" where
  "is_place_open place query_time query_day =
     (case map_of place (str ''hours'') of
        None \<Rightarrow> Inr False
      | Some hv \<Rightarrow>
          if \<not> truthy hv then Inr False
          else
            (case py_iter hv of
               Inl e \<Rightarrow> Inl e
             | Inr es \<Rightarrow>
                 (case find_day_hours es query_day of
                    Inl e \<Rightarrow> Inl e
                  | Inr None \<Rightarrow> Inr False
                  | Inr (Some day_hours) \<Rightarrow>
                      if day_hours = [] then Inr False
                      else Inr (in_ranges (parse_hours_string day_hours) query_time))))"

subsection \<open>filter\_open\_places\<close>

text \<open>
  The place dictionaries are objects that the function could change in place, so they
  live in a store: an address is an index into the list of dictionaries. \<open>places\<close> and
  \<open>open_places\<close> are lists of addresses. \<open>place.copy()\<close> allocates a new dictionary with
  the same items, and \<open>pop\<close> changes the dictionary at the address it is given. The values
  inside a dictionary are never written to. A Python reference always points to an
  object; \<open>BadReference\<close> marks an address outside the store in the model.
\<close>

type_synonym store = "place list"

definition deref :: "store \<Rightarrow> nat \<Rightarrow> place option" where
  "deref h a = (if a < length h then Some (h ! a) else None)"

definition dict_copy :: "store \<Rightarrow> place \<Rightarrow> store \<times> nat" where
  "dict_copy h d = (h @ [d], length h)"

definition dict_pop :: "store \<Rightarrow> nat \<Rightarrow> pstr \<Rightarrow> store" where
  "dict_pop h a k =
     (if a < length h then h[a := filter (\<lambda>kv. fst kv \<noteq> k) (h ! a)] else h)"

datatype failure = PyError error | BadReference

fun filter_loop ::
  "store \<Rightarrow> nat list \<Rightarrow> time \<Rightarrow> pstr \<Rightarrow> nat list \<Rightarrow> failure + store \<times> nat list"
where
  "filter_loop h [] query_time query_day open_places = Inr (h, open_places)"
| "filter_loop h (a # places) query_time query_day open_places =
     (case deref h a of
        None \<Rightarrow> Inl BadReference
      | Some place \<Rightarrow>
          (case is_place_open place query_time query_day of
             Inl e \<Rightarrow> Inl (PyError e)
           | Inr False \<Rightarrow> filter_loop h places query_time query_day open_places
           | Inr True \<Rightarrow>
               (let (h1, place_copy) = dict_copy h place;
                    h2 = dict_pop h1 place_copy (str ''hours'')
                in filter_loop h2 places query_time query_day
                     (open_places @ [place_copy]))))"

definition filter_open_places ::
  "store \<Rightarrow> nat list \<Rightarrow> time \<Rightarrow> pstr \<Rightarrow> failure + store \<times> nat list"
where
  "filter_open_places h places query_time query_day =
     filter_loop h places query_time query_day []"


section \<open>Notions used by the statements\<close>

text \<open>
  The data model types \<open>hours\<close> as a sequence of strings: \<open>hours_typed\<close> holds of a place
  that has no \<open>hours\<close> key or whose \<open>hours\<close> value is a list of strings.
\<close>

fun is_str :: "jval \<Rightarrow> bool" where
  "is_str (JStr s) = True"
| "is_str _ = False"

definition hours_typed :: "place \<Rightarrow> bool" where
  "hours_typed p =
     (case map_of p (str ''hours'') of
        None \<Rightarrow> True
      | Some (JArr es) \<Rightarrow> list_all is_str es
      | Some _ \<Rightarrow> False)"

text \<open>The seven canonical day names, the values of \<open>day_mapping\<close>.\<close>

definition canonical_days :: "pstr list" where
  "canonical_days =
     [str ''Monday'', str ''Tuesday'', str ''Wednesday'', str ''Thursday'', str ''Friday'',
      str ''Saturday'', str ''Sunday'']"

text \<open>A dictionary without its \<open>hours\<close> item: what \<open>pop("hours", None)\<close> leaves.\<close>

definition without_hours :: "place \<Rightarrow> place" where
  "without_hours q = filter (\<lambda>kv. fst kv \<noteq> str ''hours'') q"

text \<open>
  The results of a sequence \<open>Seq a b\<close>, given the results of \<open>a\<close>: the same list as in
  \<open>rx_match\<close>, named so that it can be computed one result at a time.
\<close>

definition seq_results :: "rx \<Rightarrow> (caps \<times> pstr) list \<Rightarrow> (caps \<times> pstr) list" where
  "seq_results b rs =
     concat (map (\<lambda>(g1, s1). map (\<lambda>(g2, s2). (g1 @ g2, s2)) (rx_match b s1)) rs)"

text \<open>Example places.\<close>

definition monday_place :: place where
  "monday_place =
     [(str ''name'', JStr (str ''Cafe'')),
      (str ''hours'', JArr [JStr (str ''Monday: 9:00 AM '' @ [en_dash] @ str '' 5:00 PM'')])]"

definition closed_place :: place where
  "closed_place =
     [(str ''name'', JStr (str ''Bar'')),
      (str ''hours'', JArr [JStr (str ''Monday: Closed''),
                            JStr (str ''Tuesday: Open 24 hours'')])]"

text \<open>A text that can stand in front of a schedule without changing its parse.\<close>

definition inert :: "pstr \<Rightarrow> bool" where
  "inert x \<longleftrightarrow>
     list_all (\<lambda>c. \<not> is_digit c \<and> c \<noteq> comma \<and> lower_cp c \<noteq> 99 \<and> lower_cp c \<noteq> 50) x"

text \<open>
  The evaluator as the specification words it (its section 4.3): the entry of the day is
  found in the same way, and what is parsed is the schedule text of the entry, the text
  that follows \<open>"<Day>: "\<close>.
\<close>

definition schedule_text :: "pstr \<Rightarrow> pstr \<Rightarrow> pstr" where
  "schedule_text query_day hours_entry = drop (length (query_day @ str '': '')) hours_entry"

definition is_place_open_spec :: "pstr list \<Rightarrow> time \<Rightarrow> pstr \<Rightarrow> bool" where
  "is_place_open_spec hours query_time query_day =
     (if hours = [] then False
      else case find (starts_with (query_day @ str '':'')) hours of
             None \<Rightarrow> False
           | Some hours_entry \<Rightarrow>
               list_ex (\<lambda>(a, b). time_le a query_time \<and> time_le query_time b)
                 (parse_hours_string (schedule_text query_day hours_entry)))"

text \<open>The split-shift schedule of the specification's example, and a place that has it.\<close>

definition split_shift :: pstr where
  "split_shift =
     str ''11:00 AM '' @ [en_dash] @ str '' 2:00 PM, 5:00 '' @ [en_dash] @ str '' 9:00 PM''"

definition split_place :: place where
  "split_place =
     [(str ''name'', JStr (str ''Bistro'')),
      (str ''hours'', JArr [JStr (str ''Sunday: Closed''),
                            JStr (str ''Monday: '' @ split_shift)])]"

text \<open>The texts that may remain after a match: the second components of \<open>rx_match\<close>.\<close>

definition rest_of :: "rx \<Rightarrow> pstr \<Rightarrow> pstr set" where
  "rest_of r s = snd ` set (rx_match r s)"






section \<open>Lemmas on strings\<close>

lemma starts_with_iff: "starts_with p s \<longleftrightarrow> (\<exists>b. s = p @ b)"
  by (induction p s rule: starts_with.induct) auto

lemma contains_iff: "contains p s \<longleftrightarrow> (\<exists>a b. s = a @ p @ b)"
proof (induction s)
  case Nil
  then show ?case by (cases p) auto
next
  case (Cons c cs)
  show ?case
  proof
    assume "contains p (c # cs)"
    then consider "starts_with p (c # cs)" | "contains p cs" by auto
    then show "\<exists>a b. c # cs = a @ p @ b"
    proof cases
      case 1
      then obtain b where "c # cs = p @ b" by (auto simp: starts_with_iff)
      then have "c # cs = [] @ p @ b" by simp
      then show ?thesis by blast
    next
      case 2
      then obtain a b where "cs = a @ p @ b" using Cons.IH by auto
      then have "c # cs = (c # a) @ p @ b" by simp
      then show ?thesis by blast
    qed
  next
    assume "\<exists>a b. c # cs = a @ p @ b"
    then obtain a b where ab: "c # cs = a @ p @ b" by auto
    show "contains p (c # cs)"
    proof (cases a)
      case Nil
      then have "starts_with p (c # cs)" using ab by (auto simp: starts_with_iff)
      then show ?thesis by simp
    next
      case (Cons x a')
      then have "cs = a' @ p @ b" using ab by simp
      then have "contains p cs" using Cons.IH by auto
      then show ?thesis by simp
    qed
  qed
qed

subsection \<open>Characters\<close>

lemma digit_not_space: "is_digit c \<Longrightarrow> \<not> is_space c"
  by (auto simp: is_digit_def is_space_def)

lemma upper_cp_digit: "is_digit c \<Longrightarrow> upper_cp c = c"
  by (auto simp: is_digit_def upper_cp_def)

lemma upper_cp_space: "is_space c \<Longrightarrow> upper_cp c = c"
  by (auto simp: is_space_def upper_cp_def)

lemma is_space_lower_cp: "is_space (lower_cp c) = is_space c"
  by (auto simp: is_space_def lower_cp_def)

lemma upper_digits: "list_all is_digit ds \<Longrightarrow> upper ds = ds"
  by (induction ds) (auto simp: upper_def upper_cp_digit)

lemma upper_spaces: "list_all is_space ws \<Longrightarrow> upper ws = ws"
  by (induction ws) (auto simp: upper_def upper_cp_space)

lemma upper_append: "upper (a @ b) = upper a @ upper b"
  by (simp add: upper_def)

lemma lower_append: "lower (a @ b) = lower a @ lower b"
  by (simp add: lower_def)

subsection \<open>strip\<close>

lemma lstrip_Cons: "\<not> is_space c \<Longrightarrow> lstrip (c # cs) = c # cs"
  by (simp add: lstrip_def)

lemma rstrip_snoc: "\<not> is_space c \<Longrightarrow> rstrip (cs @ [c]) = cs @ [c]"
  by (simp add: rstrip_def)

lemma strip_id: "s \<noteq> [] \<Longrightarrow> \<not> is_space (hd s) \<Longrightarrow> \<not> is_space (last s) \<Longrightarrow> strip s = s"
proof -
  assume a: "s \<noteq> []" "\<not> is_space (hd s)" "\<not> is_space (last s)"
  then have "lstrip s = s" by (cases s) (auto simp: lstrip_def)
  moreover have "rstrip s = s" using a rstrip_snoc [of "last s" "butlast s"] by simp
  ultimately show ?thesis by (simp add: strip_def)
qed

section \<open>Lemmas on the matcher\<close>

lemma seq_results_Nil: "seq_results b [] = []"
  by (simp add: seq_results_def)

lemma seq_results_Cons:
  "seq_results b ((g1, s1) # rs) =
     map (\<lambda>(g2, s2). (g1 @ g2, s2)) (rx_match b s1) @ seq_results b rs"
  by (simp add: seq_results_def)

lemma rx_match_Seq: "rx_match (Seq a b) s = seq_results b (rx_match a s)"
  by (simp add: seq_results_def)

lemma rep_match_Nil: "rep_match k lo hi [] = (if lo = 0 then [[]] else [])"
  by (cases hi) auto

lemma rep_match_Cons:
  "0 < hi \<Longrightarrow> rep_match k lo hi (c # cs) =
     (if cls_ok k c then rep_match k (lo - 1) (hi - 1) cs else []) @
     (if lo = 0 then [c # cs] else [])"
  by (cases hi) auto

lemma star_match_run:
  assumes "list_all (cls_ok k) ws" and "rest = [] \<or> \<not> cls_ok k (hd rest)"
  shows "star_match k (ws @ rest) = rest # map (\<lambda>i. drop i ws @ rest) (rev [0..<length ws])"
  using assms(1)
proof (induction ws)
  case Nil
  then show ?case using assms(2) by (cases rest) auto
next
  case (Cons w ws)
  have "map (\<lambda>i. drop i (w # ws) @ rest) (rev [0..<length (w # ws)]) =
        map (\<lambda>i. drop i ws @ rest) (rev [0..<length ws]) @ [w # ws @ rest]"
    by (simp add: upt_conv_Cons map_Suc_upt [symmetric] rev_map del: upt_Suc)
  then show ?case using Cons by simp
qed

lemma cls_space: "cls_ok Space = is_space"
  by (rule ext) simp

lemma cls_digit: "cls_ok Digit = is_digit"
  by (rule ext) simp

lemmas rx_eval =
  rx_match.simps(1,2) rx_match_Seq rx_match.simps(4-8) seq_results_Nil seq_results_Cons
  rep_match_Nil rep_match_Cons

lemmas str_eval =
  str_def upper_def upper_cp_def lower_def lower_cp_def strip_def lstrip_def rstrip_def
  is_space_def is_digit_def en_dash_def hyphen_def comma_def

lemmas parse_eval =
  time12_rx_def time24_rx_def time_token_rx_def time_pattern_def group_def py_int_def
  mk_time_def Let_def parse_time_def parse_hours_string_def

lemma search12:
  assumes hs: "list_all is_digit hs" "length hs = 1 \<or> length hs = 2"
      and ms: "is_digit m1" "is_digit m2" and ws: "list_all is_space ws"
      and p: "p = str ''AM'' \<or> p = str ''PM''"
  shows "re_search time12_rx (hs @ str '':'' @ [m1, m2] @ ws @ p) =
           Some [(1, hs), (2, [m1, m2]), (3, p)]"
proof -
  have sp: "star_match Space (ws @ p) = p # map (\<lambda>i. drop i ws @ p) (rev [0..<length ws])"
    using p ws by (intro star_match_run) (auto simp: str_eval cls_space)
  from hs consider d where "hs = [d]" "is_digit d" | d e where "hs = [d, e]" "is_digit d" "is_digit e"
    by (cases hs; cases "tl hs") auto
  then show ?thesis
  proof cases
    case 1
    then show ?thesis using ms p
      by (auto simp del: rx_match.simps simp add: rx_eval time12_rx_def str_def sp is_digit_def)
  next
    case 2
    then show ?thesis using ms p
      by (auto simp del: rx_match.simps simp add: rx_eval time12_rx_def str_def sp is_digit_def)
  qed
qed


section \<open>Lemmas on the evaluator\<close>

lemma in_ranges_iff:
  "in_ranges rs t \<longleftrightarrow> (\<exists>(a, b) \<in> set rs. time_le a t \<and> time_le t b)"
  by (induction rs t rule: in_ranges.induct) auto

lemma time_le_trans: "time_le a b \<Longrightarrow> time_le b c \<Longrightarrow> time_le a c"
  by (auto simp: time_le_def)

lemma in_ranges_append:
  "in_ranges (rs1 @ rs2) t \<longleftrightarrow> in_ranges rs1 t \<or> in_ranges rs2 t"
  by (auto simp: in_ranges_iff)

lemma all_strings: "list_all is_str es \<Longrightarrow> \<exists>ss. es = map JStr ss"
proof (induction es)
  case Nil
  then show ?case by simp
next
  case (Cons e es)
  then obtain ss where "es = map JStr ss" by auto
  moreover obtain s where "e = JStr s" using Cons.prems by (cases e) auto
  ultimately have "e # es = map JStr (s # ss)" by simp
  then show ?case by (rule exI)
qed

lemma hours_typed_cases:
  assumes "hours_typed p"
  obtains "map_of p (str ''hours'') = None"
        | ss where "map_of p (str ''hours'') = Some (JArr (map JStr ss))"
  using assms all_strings
  by (fastforce simp: hours_typed_def split: option.splits jval.splits)

lemma find_day_hours_strings:
  "find_day_hours (map JStr ss) d = Inr (find (starts_with (d @ str '':'')) ss)"
  by (induction ss) auto

lemma find_Some_holds: "find P xs = Some x \<Longrightarrow> P x"
  by (induction xs) (auto split: if_splits)

lemma is_place_open_absent:
  "map_of p (str ''hours'') = None \<Longrightarrow> is_place_open p t d = Inr False"
  by (simp add: is_place_open_def)

lemma is_place_open_strings:
  assumes "map_of p (str ''hours'') = Some (JArr (map JStr ss))"
  shows "is_place_open p t d =
           Inr (case find (starts_with (d @ str '':'')) ss of
                  None \<Rightarrow> False
                | Some e \<Rightarrow> in_ranges (parse_hours_string e) t)"
proof (cases "find (starts_with (d @ str '':'')) ss")
  case None
  then show ?thesis using assms
    by (simp add: is_place_open_def find_day_hours_strings)
next
  case (Some e)
  then have "starts_with (d @ str '':'') e" by (rule find_Some_holds)
  then have "e \<noteq> []" by (auto simp: starts_with_iff str_def)
  moreover have "ss \<noteq> []" using Some by auto
  ultimately show ?thesis using assms Some
    by (simp add: is_place_open_def find_day_hours_strings)
qed

lemma is_place_open_no_error:
  "hours_typed p \<Longrightarrow> \<exists>b. is_place_open p t d = Inr b"
  by (erule hours_typed_cases) (auto simp: is_place_open_absent is_place_open_strings)

lemma map_of_without_hours:
  "map_of (without_hours q) k = (if k = str ''hours'' then None else map_of q k)"
  unfolding without_hours_def by (induction q) auto

lemma copy_then_pop:
  "dict_copy h q = (h1, x) \<Longrightarrow>
     dict_pop h1 x (str ''hours'') = h @ [without_hours q] \<and> x = length h"
  by (auto simp: dict_copy_def dict_pop_def without_hours_def)

lemma filter_loop_result:
  assumes "\<forall>a \<in> set places. a < length h \<and> hours_typed (h ! a)"
  shows "filter_loop h places t d acc =
           Inr (h @ map (\<lambda>a. without_hours (h ! a))
                      (filter (\<lambda>a. is_place_open (h ! a) t d = Inr True) places),
                acc @ [length h ..< length h +
                         length (filter (\<lambda>a. is_place_open (h ! a) t d = Inr True) places)])"
  using assms
proof (induction places arbitrary: h acc)
  case Nil
  then show ?case by simp
next
  case (Cons a places)
  then have a: "a < length h" and typed: "hours_typed (h ! a)" by auto
  obtain b where b: "is_place_open (h ! a) t d = Inr b"
    using is_place_open_no_error [OF typed] by blast
  show ?case
  proof (cases b)
    case False
    then show ?thesis using a b Cons by (simp add: deref_def)
  next
    case True
    let ?h2 = "h @ [without_hours (h ! a)]"
    have same: "\<And>x. x \<in> set places \<Longrightarrow> ?h2 ! x = h ! x"
      using Cons.prems by (simp add: nth_append)
    have pre: "\<forall>x \<in> set places. x < length ?h2 \<and> hours_typed (?h2 ! x)"
      using Cons.prems same by auto
    have f: "filter (\<lambda>x. is_place_open (?h2 ! x) t d = Inr True) places =
             filter (\<lambda>x. is_place_open (h ! x) t d = Inr True) places"
      using same by (auto intro: filter_cong)
    have m: "map (\<lambda>x. without_hours (?h2 ! x))
               (filter (\<lambda>x. is_place_open (h ! x) t d = Inr True) places) =
             map (\<lambda>x. without_hours (h ! x))
               (filter (\<lambda>x. is_place_open (h ! x) t d = Inr True) places)"
      using same by (auto intro: map_cong)
    have step: "filter_loop h (a # places) t d acc =
                filter_loop ?h2 places t d (acc @ [length h])"
      using a b True
      by (auto simp: deref_def split: prod.splits dest: copy_then_pop)
    have u: "\<And>n. [length h ..< length h + Suc n] =
                  length h # [Suc (length h) ..< Suc (length h) + n]"
      by (simp add: upt_conv_Cons)
    show ?thesis
      unfolding step Cons.IH [OF pre] f m
      using b True u by simp
  qed
qed

lemma map_of_day_mapping:
  "map_of day_mapping x =
     find (\<lambda>D. x = lower D \<or> x = take 3 (lower D)) canonical_days"
  by (simp add: day_mapping_def canonical_days_def str_def lower_def lower_cp_def)

section \<open>Evaluated examples\<close>

lemma parse_monday_entry:
  "parse_hours_string (str ''Monday: 9:00 AM '' @ [en_dash] @ str '' 5:00 PM'') =
     [(\<lparr>hour = 9, minute = 0\<rparr>, \<lparr>hour = 17, minute = 0\<rparr>)]"
  by (simp del: rx_match.simps add: str_eval parse_eval rx_eval)

lemma parse_closed_entry: "parse_hours_string (str ''Monday: Closed'') = []"
  by (simp del: rx_match.simps add: str_eval parse_eval rx_eval)

lemma parse_overnight:
  "parse_hours_string (str ''10:00 PM '' @ [en_dash] @ str '' 2:00 AM'') =
     [(\<lparr>hour = 22, minute = 0\<rparr>, \<lparr>hour = 2, minute = 0\<rparr>)]"
  by (simp del: rx_match.simps add: str_eval parse_eval rx_eval)

lemma monday_place_open:
  "is_place_open monday_place t (str ''Monday'') =
     Inr (time_le \<lparr>hour = 9, minute = 0\<rparr> t \<and> time_le t \<lparr>hour = 17, minute = 0\<rparr>)"
proof -
  have a: "is_place_open monday_place t (str ''Monday'') =
          Inr (in_ranges (parse_hours_string
                 (str ''Monday: 9:00 AM '' @ [en_dash] @ str '' 5:00 PM'')) t)"
    by (simp add: is_place_open_def monday_place_def str_def)
  show ?thesis unfolding a parse_monday_entry by simp
qed

lemma closed_place_open:
  "is_place_open closed_place t (str ''Monday'') = Inr False"
proof -
  have a: "is_place_open closed_place t (str ''Monday'') =
          Inr (in_ranges (parse_hours_string (str ''Monday: Closed'')) t)"
    by (simp add: is_place_open_def closed_place_def str_def)
  show ?thesis unfolding a parse_closed_entry by simp
qed

lemma typed_examples: "hours_typed monday_place" "hours_typed closed_place"
  by (simp_all add: hours_typed_def monday_place_def closed_place_def str_def)

lemma filter_example:
  "filter_open_places [monday_place, closed_place] [0, 1] \<lparr>hour = 10, minute = 0\<rparr>
     (str ''Monday'') =
   Inr ([monday_place, closed_place, [(str ''name'', JStr (str ''Cafe''))]], [2])"
  by (simp add: filter_open_places_def deref_def dict_copy_def dict_pop_def
        monday_place_open closed_place_open time_le_def)
     (simp add: monday_place_def str_def)

section \<open>The open/closed test\<close>

text \<open>
  C8. The evaluator tests a query time against an interval only by
  \<open>start_time \<le> query_time \<le> end_time\<close>. So an interval whose opening time is later than
  its closing time, as an overnight range gives, holds no query time, and taking it out
  of the interval list never changes the verdict.
\<close>

theorem overnight_interval_never_open:
  assumes "\<not> time_le start_time end_time"
  shows "\<not> (time_le start_time t \<and> time_le t end_time) \<and>
         in_ranges (rs1 @ (start_time, end_time) # rs2) t = in_ranges (rs1 @ rs2) t"
proof -
  have 1: "\<not> (time_le start_time t \<and> time_le t end_time)"
    using assms time_le_trans by blast
  then have "in_ranges ((start_time, end_time) # rs2) t = in_ranges rs2 t" by auto
  then show ?thesis using 1 by (auto simp: in_ranges_append)
qed

theorem overnight_interval_never_open_witness:
  "parse_hours_string (str ''10:00 PM '' @ [en_dash] @ str '' 2:00 AM'') =
     [(\<lparr>hour = 22, minute = 0\<rparr>, \<lparr>hour = 2, minute = 0\<rparr>)] \<and>
   \<not> time_le \<lparr>hour = 22, minute = 0\<rparr> \<lparr>hour = 2, minute = 0\<rparr> \<and>
   \<not> (time_le \<lparr>hour = 22, minute = 0\<rparr> \<lparr>hour = 23, minute = 30\<rparr> \<and>
      time_le \<lparr>hour = 23, minute = 30\<rparr> \<lparr>hour = 2, minute = 0\<rparr>) \<and>
   in_ranges ([] @ (\<lparr>hour = 22, minute = 0\<rparr>, \<lparr>hour = 2, minute = 0\<rparr>) # [])
     \<lparr>hour = 23, minute = 30\<rparr> = in_ranges ([] @ []) \<lparr>hour = 23, minute = 30\<rparr>"
proof -
  have h: "\<not> time_le \<lparr>hour = 22, minute = 0\<rparr> \<lparr>hour = 2, minute = 0\<rparr>"
    by (simp add: time_le_def)
  show ?thesis
    using h parse_overnight
      overnight_interval_never_open [OF h, of "\<lparr>hour = 23, minute = 30\<rparr>" "[]" "[]"]
    by simp
qed

text \<open>
  C2. For a place typed as the data model says, \<open>is_place_open\<close> raises nothing and
  returns true exactly when the place has a non-empty \<open>hours\<close> list, the list has an entry
  that starts with the query day and a colon, and the query time lies in one of the
  intervals parsed from the first such entry, both ends included. So a place without
  \<open>hours\<close>, with an empty list or without an entry for the day is closed. For the hours
  \<open>["Monday: 9:00 AM \<dots> 5:00 PM"]\<close> a Monday query is open at 9:00 AM and at 5:00 PM and
  closed at 5:01 PM.
\<close>

theorem is_place_open_iff:
  assumes "hours_typed p"
  shows "is_place_open p t d =
           Inr (\<exists>ss. map_of p (str ''hours'') = Some (JArr (map JStr ss)) \<and> ss \<noteq> [] \<and>
                  (\<exists>e. find (starts_with (d @ str '':'')) ss = Some e \<and>
                    (\<exists>(a, b) \<in> set (parse_hours_string e). time_le a t \<and> time_le t b))) \<and>
         parse_time (str ''9:00 AM'') = Inr \<lparr>hour = 9, minute = 0\<rparr> \<and>
         parse_time (str ''5:00 PM'') = Inr \<lparr>hour = 17, minute = 0\<rparr> \<and>
         parse_time (str ''5:01 PM'') = Inr \<lparr>hour = 17, minute = 1\<rparr> \<and>
         is_place_open monday_place \<lparr>hour = 9, minute = 0\<rparr> (str ''Monday'') = Inr True \<and>
         is_place_open monday_place \<lparr>hour = 17, minute = 0\<rparr> (str ''Monday'') = Inr True \<and>
         is_place_open monday_place \<lparr>hour = 17, minute = 1\<rparr> (str ''Monday'') = Inr False"
proof -
  have general: "is_place_open p t d =
           Inr (\<exists>ss. map_of p (str ''hours'') = Some (JArr (map JStr ss)) \<and> ss \<noteq> [] \<and>
                  (\<exists>e. find (starts_with (d @ str '':'')) ss = Some e \<and>
                    (\<exists>(a, b) \<in> set (parse_hours_string e). time_le a t \<and> time_le t b)))"
    using assms
  proof (cases rule: hours_typed_cases)
    case 1
    then show ?thesis by (simp add: is_place_open_absent)
  next
    case (2 ss)
    have inj: "\<And>ss'. map JStr ss = map JStr ss' \<longleftrightarrow> ss = ss'"
      by (simp add: inj_map_eq_map inj_on_def)
    show ?thesis
      unfolding is_place_open_strings [OF 2] 2
      by (cases "find (starts_with (d @ str '':'')) ss") (auto simp: inj in_ranges_iff)
  qed
  have times: "parse_time (str ''9:00 AM'') = Inr \<lparr>hour = 9, minute = 0\<rparr>"
    "parse_time (str ''5:00 PM'') = Inr \<lparr>hour = 17, minute = 0\<rparr>"
    "parse_time (str ''5:01 PM'') = Inr \<lparr>hour = 17, minute = 1\<rparr>"
    by (simp_all del: rx_match.simps add: str_eval parse_eval rx_eval)
  have queries:
    "is_place_open monday_place \<lparr>hour = 9, minute = 0\<rparr> (str ''Monday'') = Inr True"
    "is_place_open monday_place \<lparr>hour = 17, minute = 0\<rparr> (str ''Monday'') = Inr True"
    "is_place_open monday_place \<lparr>hour = 17, minute = 1\<rparr> (str ''Monday'') = Inr False"
    by (simp_all add: monday_place_open time_le_def)
  show ?thesis using general times queries by simp
qed

theorem is_place_open_iff_witness:
  "hours_typed monday_place \<and>
   is_place_open monday_place \<lparr>hour = 9, minute = 0\<rparr> (str ''Monday'') =
     Inr (\<exists>ss. map_of monday_place (str ''hours'') = Some (JArr (map JStr ss)) \<and> ss \<noteq> [] \<and>
            (\<exists>e. find (starts_with (str ''Monday'' @ str '':'')) ss = Some e \<and>
              (\<exists>(a, b) \<in> set (parse_hours_string e).
                 time_le a \<lparr>hour = 9, minute = 0\<rparr> \<and> time_le \<lparr>hour = 9, minute = 0\<rparr> b)))"
  using typed_examples(1)
    is_place_open_iff [OF typed_examples(1), of "\<lparr>hour = 9, minute = 0\<rparr>" "str ''Monday''"]
  by simp

section \<open>The batch filter\<close>

text \<open>
  C5. For places typed as the data model says, \<open>filter_open_places\<close> raises nothing. The
  addresses it returns are new objects of the store, one for each place that
  \<open>is_place_open\<close> finds open, in the order of the input; the dictionary at each of them
  has no \<open>hours\<close> key and maps every other key as the input place does; and every object
  that was in the store before is unchanged. The list \<open>places\<close> is only read.
\<close>

theorem filter_open_places_frame:
  assumes "\<forall>a \<in> set places. a < length h \<and> hours_typed (h ! a)"
  shows "\<exists>h' out. filter_open_places h places t d = Inr (h', out) \<and>
           take (length h) h' = h \<and>
           (\<forall>x \<in> set out. length h \<le> x \<and> x < length h' \<and>
                str ''hours'' \<notin> fst ` set (h' ! x)) \<and>
           list_all2
             (\<lambda>x a. \<forall>k. map_of (h' ! x) k =
                            (if k = str ''hours'' then None else map_of (h ! a) k))
             out (filter (\<lambda>a. is_place_open (h ! a) t d = Inr True) places)"
proof -
  let ?open = "filter (\<lambda>a. is_place_open (h ! a) t d = Inr True) places"
  let ?h' = "h @ map (\<lambda>a. without_hours (h ! a)) ?open"
  let ?out = "[length h ..< length h + length ?open]"
  have r: "filter_open_places h places t d = Inr (?h', ?out)"
    unfolding filter_open_places_def filter_loop_result [OF assms] by simp
  have nth: "\<And>i. i < length ?open \<Longrightarrow> ?h' ! (length h + i) = without_hours (h ! (?open ! i))"
    by (simp add: nth_append)
  have 1: "take (length h) ?h' = h" by simp
  have 2: "\<forall>x \<in> set ?out. length h \<le> x \<and> x < length ?h' \<and>
             str ''hours'' \<notin> fst ` set (?h' ! x)"
  proof
    fix x assume "x \<in> set ?out"
    then obtain i where i: "x = length h + i" "i < length ?open"
      by (auto simp: nat_le_iff_add)
    have "str ''hours'' \<notin> fst ` set (without_hours (h ! (?open ! i)))"
      by (auto simp: without_hours_def)
    then show "length h \<le> x \<and> x < length ?h' \<and> str ''hours'' \<notin> fst ` set (?h' ! x)"
      using i nth [of i] by simp
  qed
  have 3: "list_all2
             (\<lambda>x a. \<forall>k. map_of (?h' ! x) k =
                            (if k = str ''hours'' then None else map_of (h ! a) k))
             ?out ?open"
    by (simp add: list_all2_conv_all_nth nth map_of_without_hours)
  show ?thesis using r 1 2 3 by blast
qed

theorem filter_open_places_frame_witness:
  "hours_typed monday_place \<and> hours_typed closed_place \<and>
   filter_open_places [monday_place, closed_place] [0, 1] \<lparr>hour = 10, minute = 0\<rparr>
     (str ''Monday'') =
   Inr ([monday_place, closed_place, [(str ''name'', JStr (str ''Cafe''))]], [2]) \<and>
   (\<exists>h' out. filter_open_places [monday_place, closed_place] [0, 1]
       \<lparr>hour = 10, minute = 0\<rparr> (str ''Monday'') = Inr (h', out) \<and>
     take (length [monday_place, closed_place]) h' = [monday_place, closed_place] \<and>
     list_all2
       (\<lambda>x a. \<forall>k. map_of (h' ! x) k =
                      (if k = str ''hours'' then None
                       else map_of ([monday_place, closed_place] ! a) k))
       out (filter (\<lambda>a. is_place_open ([monday_place, closed_place] ! a)
                           \<lparr>hour = 10, minute = 0\<rparr> (str ''Monday'') = Inr True) [0, 1]))"
proof -
  have h: "\<forall>a \<in> set [0, 1]. a < length [monday_place, closed_place] \<and>
             hours_typed ([monday_place, closed_place] ! a)"
    by (simp add: typed_examples)
  show ?thesis
    using typed_examples filter_example
      filter_open_places_frame [OF h, of "\<lparr>hour = 10, minute = 0\<rparr>" "str ''Monday''"]
    by blast
qed

section \<open>Day names\<close>

text \<open>
  C6. \<open>parse_day\<close> succeeds exactly when the token, stripped and in lower case, is the
  lower-case form of one of the seven day names or its first three letters, and then
  returns that day name in its canonical capitalised form; every other token raises
  \<open>ValueError\<close>, the invalid-input error. So \<open>MON\<close>, \<open>Mon\<close> and \<open>monday\<close> all give
  \<open>Monday\<close>.
\<close>

theorem parse_day_canonical:
  "parse_day tok =
     (case find (\<lambda>D. lower (strip tok) = lower D \<or> lower (strip tok) = take 3 (lower D))
             canonical_days of
        Some D \<Rightarrow> Inr D
      | None \<Rightarrow> Inl ValueError) \<and>
   parse_day (str ''MON'') = Inr (str ''Monday'') \<and>
   parse_day (str ''Mon'') = Inr (str ''Monday'') \<and>
   parse_day (str ''monday'') = Inr (str ''Monday'') \<and>
   parse_day (str ''Mo'') = Inl ValueError"
proof -
  have "parse_day tok =
     (case find (\<lambda>D. lower (strip tok) = lower D \<or> lower (strip tok) = take 3 (lower D))
             canonical_days of
        Some D \<Rightarrow> Inr D
      | None \<Rightarrow> Inl ValueError)"
    by (simp add: parse_day_def map_of_day_mapping Let_def)
  moreover have "parse_day (str ''MON'') = Inr (str ''Monday'')"
    "parse_day (str ''Mon'') = Inr (str ''Monday'')"
    "parse_day (str ''monday'') = Inr (str ''Monday'')"
    "parse_day (str ''Mo'') = Inl ValueError"
    by (simp_all add: parse_day_def day_mapping_def str_eval)
  ultimately show ?thesis by simp
qed

theorem parse_day_canonical_witness:
  "parse_day (str '' tue '') = Inr (str ''Tuesday'') \<and>
   parse_day (str '' tue '') =
     (case find (\<lambda>D. lower (strip (str '' tue '')) = lower D \<or>
                      lower (strip (str '' tue '')) = take 3 (lower D))
             canonical_days of
        Some D \<Rightarrow> Inr D
      | None \<Rightarrow> Inl ValueError)"
proof -
  have "parse_day (str '' tue '') = Inr (str ''Tuesday'')"
    by (simp add: parse_day_def day_mapping_def str_eval)
  then show ?thesis using parse_day_canonical [of "str '' tue ''"] by simp
qed

section \<open>Times\<close>


lemma upper_cp_not_space: "\<not> is_space (upper_cp c) \<Longrightarrow> \<not> is_space c"
  using upper_cp_space by fastforce

lemma contains_suffix: "contains p (a @ p)"
proof -
  have "a @ p = a @ p @ []" by simp
  then show ?thesis unfolding contains_iff by blast
qed

lemma upper_period:
  assumes "upper period = str ''AM'' \<or> upper period = str ''PM''"
  shows "period \<noteq> [] \<and> \<not> is_space (last period)"
proof -
  from assms obtain a b where ab: "period = [a, b]" "upper_cp b = 77"
    by (cases period; cases "tl period"; cases "tl (tl period)") (auto simp: upper_def str_def)
  then have "\<not> is_space (upper_cp b)" by (simp add: is_space_def)
  then have "\<not> is_space b" by (rule upper_cp_not_space)
  then show ?thesis using ab by simp
qed

lemma parse_time_token:
  assumes hs: "list_all is_digit hs" "length hs = 1 \<or> length hs = 2"
      and ms: "is_digit m1" "is_digit m2" and ws: "list_all is_space ws"
      and p: "upper period = str ''AM'' \<or> upper period = str ''PM''"
  shows "parse_time (hs @ str '':'' @ [m1, m2] @ ws @ period) =
           (if upper period = str ''AM'' \<and> py_int hs = 12 then mk_time 0 (py_int [m1, m2])
            else if upper period = str ''PM'' \<and> py_int hs \<noteq> 12
            then mk_time (py_int hs + 12) (py_int [m1, m2])
            else mk_time (py_int hs) (py_int [m1, m2]))"
proof -
  let ?tok = "hs @ str '':'' @ [m1, m2] @ ws @ period"
  let ?s = "hs @ str '':'' @ [m1, m2] @ ws @ upper period"
  have hs_ne: "hs \<noteq> []" using hs(2) by auto
  then have "is_digit (hd hs)" using hs(1) by (cases hs) auto
  then have hd: "\<not> is_space (hd ?tok)" using hs_ne by (simp add: digit_not_space)
  have last: "\<not> is_space (last ?tok)" using upper_period [OF p] by simp
  have "strip ?tok = ?tok" using hd last hs_ne by (intro strip_id) auto
  moreover have u1: "upper (str '':'') = str '':''" by (simp add: str_eval)
  moreover have u2: "upper [m1, m2] = [m1, m2]"
    using ms by (simp add: upper_def upper_cp_digit)
  moreover have "upper ?tok = ?s"
    unfolding upper_append upper_digits [OF hs(1)] upper_spaces [OF ws] u1 u2 ..
  ultimately have s: "upper (strip ?tok) = ?s" by simp
  have c: "contains (str ''AM'') ?s \<or> contains (str ''PM'') ?s"
    using p contains_suffix [of "upper period" "hs @ str '':'' @ [m1, m2] @ ws"] by auto
  have g: "re_search time12_rx ?s = Some [(1, hs), (2, [m1, m2]), (3, upper period)]"
    using search12 [OF hs ms ws p] .
  show ?thesis
    unfolding parse_time_def s Let_def using c g
    by (simp add: group_def)
qed

text \<open>
  C7. A 12-hour token, one or two hour digits, a colon, two minute digits, any
  whitespace and \<open>AM\<close> or \<open>PM\<close> in any case, with the hour in 1..12 and the minute in
  0..59, is parsed to the 24-hour time: hour 12 becomes 0 for \<open>AM\<close> and stays 12 for \<open>PM\<close>,
  every other \<open>PM\<close> hour has 12 added, and every other \<open>AM\<close> hour is kept. So
  \<open>parse_time("2:30 PM")\<close> equals \<open>parse_time("14:30")\<close>, \<open>"12:00 AM"\<close> is 00:00 and
  \<open>"12:00 PM"\<close> is 12:00.
\<close>

theorem parse_time_12_hour:
  assumes "list_all is_digit hs" and "length hs = 1 \<or> length hs = 2"
      and "is_digit m1" and "is_digit m2" and "list_all is_space ws"
      and "upper period = str ''AM'' \<or> upper period = str ''PM''"
      and "1 \<le> py_int hs" and "py_int hs \<le> 12" and "py_int [m1, m2] \<le> 59"
  shows "parse_time (hs @ str '':'' @ [m1, m2] @ ws @ period) =
           Inr \<lparr>hour = (if upper period = str ''AM''
                        then (if py_int hs = 12 then 0 else py_int hs)
                        else (if py_int hs = 12 then 12 else py_int hs + 12)),
                minute = py_int [m1, m2]\<rparr> \<and>
         parse_time (str ''2:30 PM'') = parse_time (str ''14:30'') \<and>
         parse_time (str ''14:30'') = Inr \<lparr>hour = 14, minute = 30\<rparr> \<and>
         parse_time (str ''12:00 AM'') = Inr \<lparr>hour = 0, minute = 0\<rparr> \<and>
         parse_time (str ''12:00 PM'') = Inr \<lparr>hour = 12, minute = 0\<rparr>"
proof -
  have ne: "str ''AM'' \<noteq> str ''PM''" by (simp add: str_def)
  have general: "parse_time (hs @ str '':'' @ [m1, m2] @ ws @ period) =
           Inr \<lparr>hour = (if upper period = str ''AM''
                        then (if py_int hs = 12 then 0 else py_int hs)
                        else (if py_int hs = 12 then 12 else py_int hs + 12)),
                minute = py_int [m1, m2]\<rparr>"
    unfolding parse_time_token [OF assms(1-6)]
    using assms(6-9) ne by (auto simp: mk_time_def)
  have ex: "parse_time (str ''2:30 PM'') = Inr \<lparr>hour = 14, minute = 30\<rparr>"
    "parse_time (str ''14:30'') = Inr \<lparr>hour = 14, minute = 30\<rparr>"
    "parse_time (str ''12:00 AM'') = Inr \<lparr>hour = 0, minute = 0\<rparr>"
    "parse_time (str ''12:00 PM'') = Inr \<lparr>hour = 12, minute = 0\<rparr>"
    by (simp_all del: rx_match.simps add: str_eval parse_eval rx_eval)
  show ?thesis using general ex by simp
qed

theorem parse_time_12_hour_witness:
  "list_all is_digit (str ''9'') \<and> (length (str ''9'') = 1 \<or> length (str ''9'') = 2) \<and>
   is_digit 48 \<and> is_digit 53 \<and> list_all is_space [32] \<and>
   (upper (str ''pm'') = str ''AM'' \<or> upper (str ''pm'') = str ''PM'') \<and>
   1 \<le> py_int (str ''9'') \<and> py_int (str ''9'') \<le> 12 \<and> py_int [48, 53] \<le> 59 \<and>
   parse_time (str ''9'' @ str '':'' @ [48, 53] @ [32] @ str ''pm'') =
     Inr \<lparr>hour = 21, minute = 5\<rparr>"
proof -
  have h: "list_all is_digit (str ''9'')" "length (str ''9'') = 1 \<or> length (str ''9'') = 2"
    "is_digit 48" "is_digit 53" "list_all is_space [32]"
    "upper (str ''pm'') = str ''AM'' \<or> upper (str ''pm'') = str ''PM''"
    "1 \<le> py_int (str ''9'')" "py_int (str ''9'') \<le> 12" "py_int [48, 53] \<le> 59"
    by (simp_all add: str_eval py_int_def)
  have v: "py_int (str ''9'') = 9" "py_int [48, 53] = 5" "upper (str ''pm'') \<noteq> str ''AM''"
    by (simp_all add: str_eval py_int_def)
  show ?thesis
    using h v parse_time_12_hour [OF h] by simp
qed

section \<open>The special schedule texts\<close>

lemma lower_strip: "lower (strip s) = strip (lower s)"
proof -
  have c: "is_space \<circ> lower_cp = is_space"
    by (rule ext) (simp add: is_space_lower_cp)
  have l: "\<And>x. map lower_cp (dropWhile is_space x) = dropWhile is_space (map lower_cp x)"
    by (simp add: dropWhile_map c)
  show ?thesis
    by (simp add: lower_def strip_def lstrip_def rstrip_def rev_map [symmetric] l)
qed

lemma dropWhile_keeps:
  assumes "r \<noteq> []" and "\<not> P (hd r)"
  shows "\<exists>a'. dropWhile P (a @ r) = a' @ r"
proof (cases "\<forall>x \<in> set a. P x")
  case True
  then have "dropWhile P (a @ r) = dropWhile P r" by (simp add: dropWhile_append2)
  also have "\<dots> = [] @ r" using assms by (cases r) auto
  finally show ?thesis by blast
next
  case False
  then have "dropWhile P (a @ r) = dropWhile P a @ r"
    by (metis dropWhile_append1)
  then show ?thesis by blast
qed

lemma strip_keeps:
  assumes "p \<noteq> []" and "\<not> is_space (hd p)" and "\<not> is_space (last p)"
  shows "\<exists>a' b'. strip (a @ p @ b) = a' @ p @ b'"
proof -
  obtain a' where a': "lstrip (a @ p @ b) = a' @ p @ b"
    using dropWhile_keeps [of "p @ b" is_space a] assms unfolding lstrip_def by auto
  have "rev p \<noteq> []" "\<not> is_space (hd (rev p))"
    using assms by (simp_all add: hd_rev)
  then obtain c where c: "dropWhile is_space (rev b @ rev p @ rev a') = c @ rev p @ rev a'"
    using dropWhile_keeps [of "rev p @ rev a'" is_space "rev b"] by auto
  have "strip (a @ p @ b) = a' @ p @ rev c"
    unfolding strip_def a' rstrip_def by (simp add: c)
  then show ?thesis by blast
qed

lemma strip_inside: "\<exists>u v. s = u @ strip s @ v"
proof -
  have 1: "s = takeWhile is_space s @ lstrip s" by (simp add: lstrip_def)
  have "rev (lstrip s) = takeWhile is_space (rev (lstrip s)) @ dropWhile is_space (rev (lstrip s))"
    by simp
  then have "lstrip s = strip s @ rev (takeWhile is_space (rev (lstrip s)))"
    unfolding strip_def rstrip_def by (metis rev_append rev_rev_ident)
  then have "s = takeWhile is_space s @ strip s @ rev (takeWhile is_space (rev (lstrip s)))"
    using 1 by simp
  then show ?thesis by blast
qed

lemma contains_strip:
  assumes "p \<noteq> []" and "\<not> is_space (hd p)" and "\<not> is_space (last p)"
  shows "contains p (strip s) = contains p s"
proof
  assume "contains p (strip s)"
  then obtain a b where ab: "strip s = a @ p @ b" unfolding contains_iff by blast
  obtain u v where "s = u @ strip s @ v" using strip_inside by blast
  then have "s = (u @ a) @ p @ (b @ v)" using ab by simp
  then show "contains p s" unfolding contains_iff by blast
next
  assume "contains p s"
  then obtain a b where "s = a @ p @ b" unfolding contains_iff by blast
  then show "contains p (strip s)"
    using strip_keeps [OF assms, of a b] unfolding contains_iff by auto
qed

lemma contains_lower_strip:
  assumes "p \<noteq> []" and "\<not> is_space (hd p)" and "\<not> is_space (last p)"
  shows "contains p (lower (strip s)) = contains p (lower s)"
  unfolding lower_strip by (rule contains_strip [OF assms])

lemma closed_after_strip:
  "contains (str ''closed'') (lower (strip s)) = contains (str ''closed'') (lower s)"
  by (rule contains_lower_strip) (simp_all add: str_def is_space_def)

lemma all_day_after_strip:
  "contains (str ''24 hours'') (lower (strip s)) = contains (str ''24 hours'') (lower s)"
  by (rule contains_lower_strip) (simp_all add: str_def is_space_def)

lemma parse_hours_string_closed:
  "contains (str ''closed'') (lower s) \<Longrightarrow> parse_hours_string s = []"
  by (simp add: parse_hours_string_def closed_after_strip)

lemma parse_hours_string_all_day:
  "contains (str ''24 hours'') (lower s) \<Longrightarrow> \<not> contains (str ''closed'') (lower s) \<Longrightarrow>
     parse_hours_string s = [(\<lparr>hour = 0, minute = 0\<rparr>, \<lparr>hour = 23, minute = 59\<rparr>)]"
  by (simp add: parse_hours_string_def closed_after_strip all_day_after_strip)

text \<open>
  C4. Every schedule string that contains \<open>closed\<close> in any case is parsed to no
  interval, whatever else it holds; so a place whose entry for the day is such a string
  is closed at every query time.
\<close>

theorem closed_text_closes_the_day:
  assumes "contains (str ''closed'') (lower s)"
  shows "parse_hours_string s = [] \<and>
         (map_of p (str ''hours'') = Some (JArr (map JStr ss)) \<and>
          find (starts_with (d @ str '':'')) ss = Some s \<longrightarrow>
          is_place_open p t d = Inr False)"
  using assms
  by (simp add: parse_hours_string_closed is_place_open_strings)

theorem closed_text_closes_the_day_witness:
  "contains (str ''closed'') (lower (str ''Monday: Closed'')) \<and>
   map_of closed_place (str ''hours'') =
     Some (JArr (map JStr [str ''Monday: Closed'', str ''Tuesday: Open 24 hours''])) \<and>
   find (starts_with (str ''Monday'' @ str '':''))
     [str ''Monday: Closed'', str ''Tuesday: Open 24 hours''] = Some (str ''Monday: Closed'') \<and>
   parse_hours_string (str ''Monday: Closed'') = [] \<and>
   is_place_open closed_place \<lparr>hour = 12, minute = 0\<rparr> (str ''Monday'') = Inr False"
proof -
  have h: "contains (str ''closed'') (lower (str ''Monday: Closed''))"
    "map_of closed_place (str ''hours'') =
       Some (JArr (map JStr [str ''Monday: Closed'', str ''Tuesday: Open 24 hours'']))"
    "find (starts_with (str ''Monday'' @ str '':''))
       [str ''Monday: Closed'', str ''Tuesday: Open 24 hours''] = Some (str ''Monday: Closed'')"
    by (simp_all add: closed_place_def str_eval)
  show ?thesis
    using h closed_text_closes_the_day [OF h(1), of closed_place
        "[str ''Monday: Closed'', str ''Tuesday: Open 24 hours'']" "str ''Monday''"
        "\<lparr>hour = 12, minute = 0\<rparr>"]
    by simp
qed

text \<open>
  C3, as stated, fails: \<open>closed\<close> is looked for before \<open>24 hours\<close>, so a string with both
  is parsed to no interval.
\<close>

theorem all_day_text_counterexample:
  "contains (str ''24 hours'') (lower (str ''Open 24 hours, closed on holidays'')) \<and>
   parse_hours_string (str ''Open 24 hours, closed on holidays'') \<noteq>
     [(\<lparr>hour = 0, minute = 0\<rparr>, \<lparr>hour = 23, minute = 59\<rparr>)]"
proof -
  have 1: "contains (str ''24 hours'') (lower (str ''Open 24 hours, closed on holidays''))"
    by (simp add: str_eval)
  have "contains (str ''closed'') (lower (str ''Open 24 hours, closed on holidays''))"
    by (simp add: str_eval)
  then have "parse_hours_string (str ''Open 24 hours, closed on holidays'') = []"
    by (rule parse_hours_string_closed)
  then show ?thesis using 1 by simp
qed

text \<open>
  C3, amended. A schedule string that contains \<open>24 hours\<close> in any case and does not
  contain \<open>closed\<close> in any case is parsed to the one interval from 00:00 to 23:59.
\<close>

theorem all_day_text:
  assumes "contains (str ''24 hours'') (lower s)"
      and "\<not> contains (str ''closed'') (lower s)"
  shows "parse_hours_string s = [(\<lparr>hour = 0, minute = 0\<rparr>, \<lparr>hour = 23, minute = 59\<rparr>)]"
  using assms by (rule parse_hours_string_all_day)

theorem all_day_text_witness:
  "contains (str ''24 hours'') (lower (str ''Open 24 Hours'')) \<and>
   \<not> contains (str ''closed'') (lower (str ''Open 24 Hours'')) \<and>
   parse_hours_string (str ''Open 24 Hours'') =
     [(\<lparr>hour = 0, minute = 0\<rparr>, \<lparr>hour = 23, minute = 59\<rparr>)]"
proof -
  have h: "contains (str ''24 hours'') (lower (str ''Open 24 Hours''))"
    "\<not> contains (str ''closed'') (lower (str ''Open 24 Hours''))"
    by (simp_all add: str_eval)
  show ?thesis using h all_day_text [OF h] by simp
qed

section \<open>A day name in front of the schedule\<close>


subsection \<open>Whitespace at the ends of a string\<close>

lemma space_decomp:
  obtains "list_all is_space y"
  | a m b where "y = a @ m @ b" "list_all is_space a" "list_all is_space b"
      "m \<noteq> []" "\<not> is_space (hd m)" "\<not> is_space (last m)"
proof (cases "dropWhile is_space y = []")
  case True
  then have "list_all is_space y" by (simp add: list_all_iff dropWhile_eq_Nil_conv)
  then show ?thesis by (rule that(1))
next
  case False
  let ?r = "dropWhile is_space y"
  let ?m = "rev (dropWhile is_space (rev ?r))"
  let ?b = "rev (takeWhile is_space (rev ?r))"
  have hr: "\<not> is_space (hd ?r)" using False by (rule hd_dropWhile)
  have "hd ?r \<in> set (rev ?r)" using False by simp
  then have ne: "dropWhile is_space (rev ?r) \<noteq> []"
    using hr by (auto simp: dropWhile_eq_Nil_conv)
  have r: "?r = ?m @ ?b"
    by (metis rev_append rev_rev_ident takeWhile_dropWhile_id)
  have 1: "y = takeWhile is_space y @ ?m @ ?b" using r by simp
  have 2: "list_all is_space (takeWhile is_space y)"
    by (simp add: list_all_iff) (meson set_takeWhileD)
  have 3: "list_all is_space ?b"
    by (simp add: list_all_iff) (meson set_takeWhileD)
  have 4: "?m \<noteq> []" using ne by simp
  have 5: "\<not> is_space (hd ?m)" using hr r 4 by (metis hd_append2)
  have 6: "\<not> is_space (last ?m)" using ne by (simp add: last_rev hd_dropWhile)
  show ?thesis using that(2) [OF 1 2 3 4 5 6] .
qed

lemma lstrip_spaces: "list_all is_space w \<Longrightarrow> lstrip (w @ y) = lstrip y"
  by (simp add: lstrip_def list_all_iff dropWhile_append2)

lemma rstrip_spaces:
  assumes "list_all is_space w"
  shows "rstrip (y @ w) = rstrip y"
proof -
  have "dropWhile is_space (rev w @ rev y) = dropWhile is_space (rev y)"
    using assms by (intro dropWhile_append2) (auto simp: list_all_iff)
  then show ?thesis by (simp add: rstrip_def)
qed

lemma lstrip_keep: "q \<noteq> [] \<Longrightarrow> \<not> is_space (hd q) \<Longrightarrow> lstrip (q @ y) = q @ y"
  by (cases q) (auto simp: lstrip_def)

lemma rstrip_keep: "q \<noteq> [] \<Longrightarrow> \<not> is_space (last q) \<Longrightarrow> rstrip (y @ q) = y @ q"
  using rstrip_snoc [of "last q" "y @ butlast q"] by simp

lemma rstrip_all_spaces: "list_all is_space w \<Longrightarrow> rstrip w = []"
  using rstrip_spaces [of w "[]"] by (simp add: rstrip_def)

lemma lstrip_all_spaces: "list_all is_space w \<Longrightarrow> lstrip w = []"
  using lstrip_spaces [of w "[]"] by (simp add: lstrip_def)

lemma strip_spaces_left: "list_all is_space w \<Longrightarrow> strip (w @ y) = strip y"
  by (simp add: strip_def lstrip_spaces)

lemma rstrip_as_strip: "\<exists>w. list_all is_space w \<and> rstrip y = w @ strip y"
proof (cases y rule: space_decomp)
  case 1
  then have "rstrip y = [] @ strip y"
    by (simp add: strip_def lstrip_all_spaces rstrip_all_spaces)
  then show ?thesis by (intro exI [of _ "[]"]) simp
next
  case (2 a m b)
  have "rstrip y = a @ m"
    unfolding 2(1) using rstrip_spaces [OF 2(3), of "a @ m"] rstrip_keep [OF 2(4,6), of a]
    by simp
  moreover have "strip y = m"
    unfolding 2(1) strip_def lstrip_spaces [OF 2(2)] lstrip_keep [OF 2(4,5)]
    using rstrip_spaces [OF 2(3), of m] rstrip_keep [OF 2(4,6), of "[]"] by simp
  ultimately have "rstrip y = a @ strip y" by simp
  then show ?thesis using 2(2) by blast
qed

lemma rstrip_prefix:
  assumes "q \<noteq> []" and "\<not> is_space (last q)"
  shows "rstrip (q @ y) = q @ rstrip y"
proof (cases y rule: space_decomp)
  case 1
  then show ?thesis
    using rstrip_spaces [OF 1, of q] rstrip_keep [OF assms, of "[]"]
    by (simp add: rstrip_all_spaces)
next
  case (2 a m b)
  have "rstrip (q @ y) = q @ a @ m"
    unfolding 2(1)
    using rstrip_spaces [OF 2(3), of "q @ a @ m"] rstrip_keep [OF 2(4,6), of "q @ a"] by simp
  moreover have "rstrip y = a @ m"
    unfolding 2(1) using rstrip_spaces [OF 2(3), of "a @ m"] rstrip_keep [OF 2(4,6), of a]
    by simp
  ultimately show ?thesis by simp
qed

lemma strip_prefix:
  assumes "q \<noteq> []" and "\<not> is_space (hd q)" and "\<not> is_space (last q)"
  shows "\<exists>w. list_all is_space w \<and> strip (q @ y) = q @ w @ strip y"
proof -
  have "strip (q @ y) = q @ rstrip y"
    unfolding strip_def lstrip_keep [OF assms(1,2)] by (rule rstrip_prefix [OF assms(1,3)])
  then show ?thesis using rstrip_as_strip [of y] by auto
qed

subsection \<open>Text in front of a schedule\<close>

lemma split_on_nonempty: "split_on sep s \<noteq> []"
  by (induction s) (auto split: list.splits)

lemma split_on_prefix:
  "sep \<notin> set x \<Longrightarrow>
     split_on sep (x @ y) = (x @ hd (split_on sep y)) # tl (split_on sep y)"
proof (induction x)
  case Nil
  then show ?case using split_on_nonempty [of sep y] by simp
next
  case (Cons c x)
  then show ?case by simp
qed

lemma contains_skip: "c \<notin> set x \<Longrightarrow> contains (c # pat) (x @ y) = contains (c # pat) y"
  by (induction x) auto

lemma time_pattern_needs_digit:
  "rx_match time_pattern [] = []"
  "\<not> is_digit c \<Longrightarrow> rx_match time_pattern (c # cs) = []"
  by (simp_all del: rx_match.simps add: time_pattern_def time_token_rx_def rx_eval)

lemma re_search_skip:
  "\<forall>c \<in> set x. \<not> is_digit c \<Longrightarrow> re_search time_pattern (x @ y) = re_search time_pattern y"
  by (induction x) (simp_all add: time_pattern_needs_digit)

lemma open_all_day_implies:
  "contains (str ''open 24 hours'') z \<Longrightarrow> contains (str ''24 hours'') z"
proof -
  assume "contains (str ''open 24 hours'') z"
  then obtain a b where "z = a @ str ''open 24 hours'' @ b" unfolding contains_iff by blast
  moreover have "str ''open 24 hours'' = str ''open '' @ str ''24 hours''" by (simp add: str_def)
  ultimately have "z = (a @ str ''open '') @ str ''24 hours'' @ b" by simp
  then show ?thesis unfolding contains_iff by blast
qed

lemma inert_append: "inert (x @ y) \<longleftrightarrow> inert x \<and> inert y"
  by (simp add: inert_def)

lemma inert_spaces: "list_all is_space w \<Longrightarrow> inert w"
  unfolding inert_def list_all_iff
  by (auto simp: is_space_def is_digit_def comma_def lower_cp_def)

lemma inert_contains:
  assumes "inert x"
  shows "contains (str ''closed'') (lower (x @ y)) = contains (str ''closed'') (lower y)"
    and "contains (str ''24 hours'') (lower (x @ y)) = contains (str ''24 hours'') (lower y)"
proof -
  have "99 \<notin> set (lower x)" "50 \<notin> set (lower x)"
    using assms by (auto simp: inert_def list_all_iff lower_def)
  then show "contains (str ''closed'') (lower (x @ y)) = contains (str ''closed'') (lower y)"
    and "contains (str ''24 hours'') (lower (x @ y)) = contains (str ''24 hours'') (lower y)"
    using contains_skip [of 99 "lower x" "str ''losed''" "lower y"]
      contains_skip [of 50 "lower x" "str ''4 hours''" "lower y"]
    by (simp_all add: lower_append str_def)
qed

lemma parse_ranges_first:
  "re_search time_pattern a = re_search time_pattern b \<Longrightarrow>
     parse_ranges (a # rs) = parse_ranges (b # rs)"
  by simp

lemma parse_hours_string_inert_prefix:
  assumes q: "q \<noteq> []" "\<not> is_space (hd q)" "\<not> is_space (last q)" "inert q"
      and w0: "list_all is_space w0"
  shows "parse_hours_string (q @ w0 @ s) = parse_hours_string s"
proof -
  obtain w where w: "list_all is_space w" "strip (q @ w0 @ s) = q @ w @ strip s"
    using strip_prefix [OF q(1-3), of "w0 @ s"] strip_spaces_left [OF w0, of s] by auto
  let ?x = "q @ w"
  let ?h = "strip s"
  have x: "inert ?x" using q(4) w(1) by (simp add: inert_append inert_spaces)
  have h1: "strip (q @ w0 @ s) = ?x @ ?h" using w(2) by simp
  have nocomma: "comma \<notin> set ?x"
    using x by (auto simp: inert_def list_all_iff)
  have nodigit: "\<And>w'. list_all is_space w' \<Longrightarrow> \<forall>c \<in> set (q @ w'). \<not> is_digit c"
    using q(4) inert_spaces by (fastforce simp: inert_def list_all_iff)
  let ?p0 = "hd (split_on comma ?h)"
  let ?ps = "tl (split_on comma ?h)"
  have sp: "split_on comma (?x @ ?h) = (?x @ ?p0) # ?ps"
    using nocomma by (rule split_on_prefix)
  have sp0: "split_on comma ?h = ?p0 # ?ps"
    using split_on_nonempty [of comma ?h] by simp
  obtain w' where w': "list_all is_space w'" "strip (q @ w @ ?p0) = q @ w' @ strip ?p0"
    using strip_prefix [OF q(1-3), of "w @ ?p0"] strip_spaces_left [OF w(1), of ?p0] by auto
  have "re_search time_pattern (strip (?x @ ?p0)) = re_search time_pattern (strip ?p0)"
    using w'(2) re_search_skip [OF nodigit [OF w'(1)], of "strip ?p0"] by simp
  then have pr: "parse_ranges (map strip ((?x @ ?p0) # ?ps)) =
                 parse_ranges (map strip (?p0 # ?ps))"
    using parse_ranges_first by simp
  have od: "\<And>z. (contains (str ''24 hours'') z \<or> contains (str ''open 24 hours'') z) =
                contains (str ''24 hours'') z"
    using open_all_day_implies by blast
  show ?thesis
    unfolding parse_hours_string_def Let_def h1 od inert_contains [OF x] sp pr
    using sp0 by simp
qed

lemma day_prefix_inert:
  assumes "D \<in> set canonical_days"
  shows "D @ str '':'' \<noteq> []" "\<not> is_space (hd (D @ str '':''))"
    "\<not> is_space (last (D @ str '':''))" "inert (D @ str '':'')"
  using assms
  by (auto simp: canonical_days_def inert_def str_def is_space_def is_digit_def comma_def
        lower_cp_def)

lemma parse_hours_string_day_prefix:
  assumes "D \<in> set canonical_days"
  shows "parse_hours_string (D @ str '': '' @ s) = parse_hours_string s"
proof -
  have "D @ str '': '' @ s = (D @ str '':'') @ [32] @ s" by (simp add: str_def)
  moreover have "list_all is_space [32]" by (simp add: is_space_def)
  ultimately show ?thesis
    using parse_hours_string_inert_prefix [OF day_prefix_inert [OF assms], of "[32]" s]
    by simp
qed

section \<open>The evaluator and the day prefix\<close>

lemma find_Some_mem: "find P xs = Some x \<Longrightarrow> x \<in> set xs"
  by (induction xs) (auto split: if_splits)

lemma schedule_text_entry: "schedule_text D (D @ str '': '' @ s) = s"
  by (simp add: schedule_text_def)

lemma is_place_open_refines:
  assumes D: "D \<in> set canonical_days"
      and p: "map_of p (str ''hours'') = Some (JArr (map JStr ss))"
      and ss: "list_all (\<lambda>e. starts_with (D @ str '':'') e \<longrightarrow> starts_with (D @ str '': '') e) ss"
  shows "is_place_open p t D = Inr (is_place_open_spec ss t D)"
proof (cases "find (starts_with (D @ str '':'')) ss")
  case None
  then show ?thesis
    unfolding is_place_open_strings [OF p] is_place_open_spec_def by simp
next
  case (Some e)
  have "starts_with (D @ str '':'') e" using Some by (rule find_Some_holds)
  moreover have "e \<in> set ss" using Some by (rule find_Some_mem)
  ultimately have "starts_with (D @ str '': '') e" using ss by (auto simp: list_all_iff)
  then obtain s where e: "e = D @ str '': '' @ s" by (auto simp: starts_with_iff)
  have ne: "ss \<noteq> []" using Some by auto
  have "parse_hours_string e = parse_hours_string (schedule_text D e)"
    unfolding e schedule_text_entry by (rule parse_hours_string_day_prefix [OF D])
  then show ?thesis
    unfolding is_place_open_strings [OF p] is_place_open_spec_def
    using Some ne by (simp add: in_ranges_iff list_ex_iff)
qed

lemma parse_split_shift:
  "parse_hours_string split_shift =
     [(\<lparr>hour = 11, minute = 0\<rparr>, \<lparr>hour = 14, minute = 0\<rparr>),
      (\<lparr>hour = 5, minute = 0\<rparr>, \<lparr>hour = 21, minute = 0\<rparr>)]"
  by (simp del: rx_match.simps add: split_shift_def str_eval parse_eval rx_eval)

lemma split_place_hours:
  "map_of split_place (str ''hours'') =
     Some (JArr (map JStr [str ''Sunday: Closed'', str ''Monday: '' @ split_shift]))"
  "find (starts_with (str ''Monday'' @ str '':''))
     [str ''Sunday: Closed'', str ''Monday: '' @ split_shift] =
   Some (str ''Monday'' @ str '': '' @ split_shift)"
  "str ''Monday'' \<in> set canonical_days"
  by (simp_all add: split_place_def str_def canonical_days_def)

lemma split_shift_open:
  assumes "D \<in> set canonical_days"
      and "map_of p (str ''hours'') = Some (JArr (map JStr ss))"
      and "find (starts_with (D @ str '':'')) ss = Some (D @ str '': '' @ split_shift)"
  shows "is_place_open p t D =
           Inr (time_le \<lparr>hour = 11, minute = 0\<rparr> t \<and> time_le t \<lparr>hour = 14, minute = 0\<rparr> \<or>
                time_le \<lparr>hour = 5, minute = 0\<rparr> t \<and> time_le t \<lparr>hour = 21, minute = 0\<rparr>)"
  unfolding is_place_open_strings [OF assms(2)] assms(3)
  by (simp add: parse_hours_string_day_prefix [OF assms(1)] parse_split_shift)

text \<open>
  C9. For every canonical day name \<open>D\<close> and every text \<open>s\<close>, parsing the whole entry
  \<open>D + ": " + s\<close> gives the same intervals as parsing \<open>s\<close>. So \<open>is_place_open\<close>, which hands
  the whole entry to the parser, agrees with the evaluator of the specification, which
  parses the text after the day prefix, on every place whose entries for the day have
  the form \<open>"<Day>: <text>"\<close>.
\<close>

theorem day_prefix_is_ignored:
  assumes "D \<in> set canonical_days"
      and "map_of p (str ''hours'') = Some (JArr (map JStr ss))"
      and "list_all (\<lambda>e. starts_with (D @ str '':'') e \<longrightarrow> starts_with (D @ str '': '') e) ss"
  shows "parse_hours_string (D @ str '': '' @ s) = parse_hours_string s \<and>
         is_place_open p t D = Inr (is_place_open_spec ss t D)"
  using parse_hours_string_day_prefix [OF assms(1)] is_place_open_refines [OF assms]
  by simp

theorem day_prefix_is_ignored_witness:
  "str ''Monday'' \<in> set canonical_days \<and>
   map_of split_place (str ''hours'') =
     Some (JArr (map JStr [str ''Sunday: Closed'', str ''Monday: '' @ split_shift])) \<and>
   parse_hours_string (str ''Monday'' @ str '': '' @ split_shift) =
     parse_hours_string split_shift \<and>
   is_place_open split_place \<lparr>hour = 12, minute = 0\<rparr> (str ''Monday'') =
     Inr (is_place_open_spec [str ''Sunday: Closed'', str ''Monday: '' @ split_shift]
            \<lparr>hour = 12, minute = 0\<rparr> (str ''Monday''))"
proof -
  have h: "list_all (\<lambda>e. starts_with (str ''Monday'' @ str '':'') e \<longrightarrow>
                          starts_with (str ''Monday'' @ str '': '') e)
             [str ''Sunday: Closed'', str ''Monday: '' @ split_shift]"
    by (simp add: str_def)
  show ?thesis
    using split_place_hours(1,3)
      day_prefix_is_ignored [OF split_place_hours(3) split_place_hours(1) h,
        of split_shift "\<lparr>hour = 12, minute = 0\<rparr>"]
    by simp
qed

text \<open>
  C1, as stated, fails: the \<open>5:00\<close> of the second range has no suffix next to it and is
  parsed as 05:00, so the second interval is 05:00 to 21:00 and a query at 3:00 PM is
  answered open, not closed.
\<close>

theorem split_shift_counterexample:
  "parse_time (str ''3:00 PM'') = Inr \<lparr>hour = 15, minute = 0\<rparr> \<and>
   is_place_open split_place \<lparr>hour = 15, minute = 0\<rparr> (str ''Monday'') = Inr True"
proof -
  have "parse_time (str ''3:00 PM'') = Inr \<lparr>hour = 15, minute = 0\<rparr>"
    by (simp del: rx_match.simps add: str_eval parse_eval rx_eval)
  then show ?thesis
    using split_shift_open [OF split_place_hours(3) split_place_hours(1) split_place_hours(2)]
    by (simp add: time_le_def)
qed

text \<open>
  C1, amended. For a place whose entry for the queried day has the schedule text
  \<open>11:00 AM \<dots> 2:00 PM, 5:00 \<dots> 9:00 PM\<close> (with en dashes), parsing yields the two
  intervals 11:00 to 14:00 and 05:00 to 21:00, each time token being parsed on its own
  with only the suffix next to it; the evaluator reports open at 1:00 PM, at 6:00 PM and
  at 3:00 PM: it reports open exactly for the query times from 05:00 to 21:00.
\<close>

theorem split_shift_hours:
  assumes "D \<in> set canonical_days"
      and "map_of p (str ''hours'') = Some (JArr (map JStr ss))"
      and "find (starts_with (D @ str '':'')) ss = Some (D @ str '': '' @ split_shift)"
  shows "parse_hours_string (D @ str '': '' @ split_shift) =
           [(\<lparr>hour = 11, minute = 0\<rparr>, \<lparr>hour = 14, minute = 0\<rparr>),
            (\<lparr>hour = 5, minute = 0\<rparr>, \<lparr>hour = 21, minute = 0\<rparr>)] \<and>
         re_search time_pattern (str ''5:00 '' @ [en_dash] @ str '' 9:00 PM'') =
           Some [(1, str ''5:00 ''), (2, str ''9:00 PM'')] \<and>
         parse_time (str ''5:00 '') = Inr \<lparr>hour = 5, minute = 0\<rparr> \<and>
         parse_time (str ''9:00 PM'') = Inr \<lparr>hour = 21, minute = 0\<rparr> \<and>
         is_place_open p \<lparr>hour = 13, minute = 0\<rparr> D = Inr True \<and>
         is_place_open p \<lparr>hour = 18, minute = 0\<rparr> D = Inr True \<and>
         is_place_open p \<lparr>hour = 15, minute = 0\<rparr> D = Inr True \<and>
         is_place_open p t D =
           Inr (time_le \<lparr>hour = 5, minute = 0\<rparr> t \<and> time_le t \<lparr>hour = 21, minute = 0\<rparr>)"
proof -
  have 1: "parse_hours_string (D @ str '': '' @ split_shift) =
           [(\<lparr>hour = 11, minute = 0\<rparr>, \<lparr>hour = 14, minute = 0\<rparr>),
            (\<lparr>hour = 5, minute = 0\<rparr>, \<lparr>hour = 21, minute = 0\<rparr>)]"
    by (simp add: parse_hours_string_day_prefix [OF assms(1)] parse_split_shift)
  have 2: "re_search time_pattern (str ''5:00 '' @ [en_dash] @ str '' 9:00 PM'') =
           Some [(1, str ''5:00 ''), (2, str ''9:00 PM'')]"
    by (simp del: rx_match.simps add: str_eval parse_eval rx_eval)
  have 3: "parse_time (str ''5:00 '') = Inr \<lparr>hour = 5, minute = 0\<rparr>"
    "parse_time (str ''9:00 PM'') = Inr \<lparr>hour = 21, minute = 0\<rparr>"
    by (simp_all del: rx_match.simps add: str_eval parse_eval rx_eval)
  have 4: "is_place_open p \<lparr>hour = 13, minute = 0\<rparr> D = Inr True"
    "is_place_open p \<lparr>hour = 18, minute = 0\<rparr> D = Inr True"
    "is_place_open p \<lparr>hour = 15, minute = 0\<rparr> D = Inr True"
    unfolding split_shift_open [OF assms] by (simp_all add: time_le_def)
  have 5: "is_place_open p t D =
           Inr (time_le \<lparr>hour = 5, minute = 0\<rparr> t \<and> time_le t \<lparr>hour = 21, minute = 0\<rparr>)"
    unfolding split_shift_open [OF assms] by (auto simp: time_le_def)
  show ?thesis using 1 2 3 4 5 by simp
qed

theorem split_shift_hours_witness:
  "str ''Monday'' \<in> set canonical_days \<and>
   map_of split_place (str ''hours'') =
     Some (JArr (map JStr [str ''Sunday: Closed'', str ''Monday: '' @ split_shift])) \<and>
   find (starts_with (str ''Monday'' @ str '':''))
     [str ''Sunday: Closed'', str ''Monday: '' @ split_shift] =
   Some (str ''Monday'' @ str '': '' @ split_shift) \<and>
   parse_hours_string (str ''Monday'' @ str '': '' @ split_shift) =
     [(\<lparr>hour = 11, minute = 0\<rparr>, \<lparr>hour = 14, minute = 0\<rparr>),
      (\<lparr>hour = 5, minute = 0\<rparr>, \<lparr>hour = 21, minute = 0\<rparr>)] \<and>
   is_place_open split_place \<lparr>hour = 13, minute = 0\<rparr> (str ''Monday'') = Inr True \<and>
   is_place_open split_place \<lparr>hour = 18, minute = 0\<rparr> (str ''Monday'') = Inr True \<and>
   is_place_open split_place \<lparr>hour = 15, minute = 0\<rparr> (str ''Monday'') = Inr True \<and>
   is_place_open split_place \<lparr>hour = 4, minute = 59\<rparr> (str ''Monday'') = Inr False"
  using split_place_hours
    split_shift_hours [OF split_place_hours(3) split_place_hours(1) split_place_hours(2),
      where t = "\<lparr>hour = 4, minute = 59\<rparr>"]
  by (simp add: time_le_def)

section \<open>Ranges that the pattern does not match\<close>



lemma snd_seq: "snd ` (\<lambda>(g2, s2). (g1 @ g2, s2)) ` S = snd ` S"
  by (simp add: image_image split_beta)

lemma rest_seq_results: "snd ` set (seq_results b rs) = (\<Union>x \<in> snd ` set rs. rest_of b x)"
proof (induction rs)
  case Nil
  then show ?case by (simp add: seq_results_Nil)
next
  case (Cons r rs)
  obtain g1 s1 where r: "r = (g1, s1)" by (cases r)
  show ?case
    unfolding r seq_results_Cons
    using Cons by (simp add: image_Un snd_seq rest_of_def del: rx_match.simps)
qed

lemma rest_Seq: "rest_of (Seq a b) s = (\<Union>x \<in> rest_of a s. rest_of b x)"
  unfolding rest_of_def [of "Seq a b"] rx_match_Seq rest_seq_results
  by (simp add: rest_of_def)

lemma rest_Grp: "rest_of (Grp n a) s = rest_of a s"
proof -
  have "snd ` set (map (\<lambda>(g, r). ((n, take (length s - length r) s) # g, r)) ys) =
        snd ` set ys" for ys :: "(caps \<times> pstr) list"
    by (simp add: image_image split_beta)
  then show ?thesis by (simp add: rest_of_def del: set_map)
qed

lemma rest_Rep: "rest_of (Rep lo hi k) s = set (rep_match k lo hi s)"
  by (simp add: rest_of_def image_image)

lemma rest_Star: "rest_of (Star k) s = set (star_match k s)"
  by (simp add: rest_of_def image_image)

lemma rest_Lit: "rest_of (Lit l) s = (if starts_with l s then {drop (length l) s} else {})"
  by (simp add: rest_of_def)

lemma rest_Cl:
  "rest_of (Cl k) s = (case s of [] \<Rightarrow> {} | c # cs \<Rightarrow> if cls_ok k c then {cs} else {})"
  by (simp add: rest_of_def split: list.splits)

lemma rest_Opt: "rest_of (Opt a) s = insert s (rest_of a s)"
  by (auto simp: rest_of_def)

lemma rest_Alt: "rest_of (Alt a b) s = rest_of a s \<union> rest_of b s"
  by (auto simp: rest_of_def)

lemmas rest_simps = rest_Seq rest_Grp rest_Rep rest_Star rest_Lit rest_Cl rest_Opt rest_Alt




































subsection \<open>The groups of a match\<close>

lemma re_search_result: "re_search r s = Some g \<Longrightarrow> \<exists>t x. (g, x) \<in> set (rx_match r t)"
proof (induction s)
  case Nil
  then have "(g, snd (hd (rx_match r []))) \<in> set (rx_match r [])"
    by (cases "rx_match r []") (auto simp del: rx_match.simps)
  then show ?case by blast
next
  case (Cons c cs)
  show ?case
  proof (cases "rx_match r (c # cs)")
    case Nil
    then show ?thesis using Cons by (simp del: rx_match.simps)
  next
    case (Cons y ys)
    then have "(g, snd y) \<in> set (rx_match r (c # cs))"
      using Cons.prems by (cases y) (auto simp del: rx_match.simps)
    then show ?thesis by blast
  qed
qed

lemma keys_Seq:
  assumes "\<And>s g x. (g, x) \<in> set (rx_match a s) \<Longrightarrow> map fst g = ka"
      and "\<And>s g x. (g, x) \<in> set (rx_match b s) \<Longrightarrow> map fst g = kb"
      and "(g, x) \<in> set (rx_match (Seq a b) s)"
  shows "map fst g = ka @ kb"
proof -
  from assms(3) obtain g1 s1 g2 where
    "(g1, s1) \<in> set (rx_match a s)" "(g2, x) \<in> set (rx_match b s1)" "g = g1 @ g2"
    by auto
  then show ?thesis using assms(1,2) by auto
qed

lemma keys_Grp:
  assumes "\<And>s g x. (g, x) \<in> set (rx_match a s) \<Longrightarrow> map fst g = ka"
      and "(g, x) \<in> set (rx_match (Grp n a) s)"
  shows "map fst g = n # ka"
proof -
  from assms(2) obtain g1 where "(g1, x) \<in> set (rx_match a s)"
    "map fst g = n # map fst g1"
    by auto
  then show ?thesis using assms(1) by auto
qed

lemma keys_atoms:
  "(g, x) \<in> set (rx_match (Rep lo hi k) s) \<Longrightarrow> map fst g = []"
  "(g, x) \<in> set (rx_match (Star k) s) \<Longrightarrow> map fst g = []"
  "(g, x) \<in> set (rx_match (Lit l) s) \<Longrightarrow> map fst g = []"
  "(g, x) \<in> set (rx_match (Cl k) s) \<Longrightarrow> map fst g = []"
  "(g, x) \<in> set (rx_match (Alt (Lit l) (Lit l')) s) \<Longrightarrow> map fst g = []"
  "(g, x) \<in> set (rx_match (Opt (Alt (Lit l) (Lit l'))) s) \<Longrightarrow> map fst g = []"
proof -
  show "(g, x) \<in> set (rx_match (Rep lo hi k) s) \<Longrightarrow> map fst g = []"
    by (simp add: image_iff)
  show "(g, x) \<in> set (rx_match (Star k) s) \<Longrightarrow> map fst g = []"
    by (simp add: image_iff)
  show "(g, x) \<in> set (rx_match (Lit l) s) \<Longrightarrow> map fst g = []"
    by (simp split: if_splits)
  show "(g, x) \<in> set (rx_match (Cl k) s) \<Longrightarrow> map fst g = []"
    by (cases s) (simp_all split: if_splits)
  show "(g, x) \<in> set (rx_match (Alt (Lit l) (Lit l')) s) \<Longrightarrow> map fst g = []"
    by (auto split: if_splits)
  show "(g, x) \<in> set (rx_match (Opt (Alt (Lit l) (Lit l'))) s) \<Longrightarrow> map fst g = []"
    by (auto split: if_splits)
qed

lemma time24_keys:
  assumes "(g, x) \<in> set (rx_match time24_rx s)"
  shows "map fst g = [1, 2]"
proof -
  have "map fst g = [1] @ [] @ [2]"
    by (rule keys_Seq [OF keys_Grp [OF keys_atoms(1)]
          keys_Seq [OF keys_atoms(3) keys_Grp [OF keys_atoms(1)]]
          assms [unfolded time24_rx_def]])
  then show ?thesis by simp
qed

lemma time12_keys:
  assumes "(g, x) \<in> set (rx_match time12_rx s)"
  shows "map fst g = [1, 2, 3]"
proof -
  have "map fst g = [1] @ [] @ [2] @ [] @ [3]"
    by (rule keys_Seq [OF keys_Grp [OF keys_atoms(1)]
          keys_Seq [OF keys_atoms(3)
            keys_Seq [OF keys_Grp [OF keys_atoms(1)]
              keys_Seq [OF keys_atoms(2) keys_Grp [OF keys_atoms(5)]]]]
          assms [unfolded time12_rx_def]])
  then show ?thesis by simp
qed

lemma time_token_keys:
  assumes "(g, x) \<in> set (rx_match time_token_rx s)"
  shows "map fst g = []"
proof -
  have "map fst g = [] @ [] @ [] @ [] @ []"
    by (rule keys_Seq [OF keys_atoms(1)
          keys_Seq [OF keys_atoms(3)
            keys_Seq [OF keys_atoms(1) keys_Seq [OF keys_atoms(2) keys_atoms(6)]]]
          assms [unfolded time_token_rx_def]])
  then show ?thesis by simp
qed

lemma time_pattern_keys:
  assumes "(g, x) \<in> set (rx_match time_pattern s)"
  shows "map fst g = [1, 2]"
proof -
  have "map fst g = [1] @ [] @ [] @ [] @ [2]"
    by (rule keys_Seq [OF keys_Grp [OF time_token_keys]
          keys_Seq [OF keys_atoms(2)
            keys_Seq [OF keys_atoms(4)
              keys_Seq [OF keys_atoms(2) keys_Grp [OF time_token_keys]]]]
          assms [unfolded time_pattern_def]])
  then show ?thesis by simp
qed

lemma time12_groups: "re_search time12_rx s = Some g \<Longrightarrow> map fst g = [1, 2, 3]"
  using re_search_result time12_keys by blast

lemma time24_groups: "re_search time24_rx s = Some g \<Longrightarrow> map fst g = [1, 2]"
  using re_search_result time24_keys by blast

lemma time_pattern_groups: "re_search time_pattern s = Some g \<Longrightarrow> map fst g = [1, 2]"
  using re_search_result time_pattern_keys by blast

section \<open>Lower-case suffixes\<close>




end
